theory Spec2Isabelle
  imports Main "HOL-Library.AList"
begin

section \<open>JavaScript numbers in the bucket arithmetic\<close>

text \<open>
  \<^verbatim>\<open>fetchAudioFeatures\<close> computes with \<^verbatim>\<open>ids.length\<close>, a non-negative integer
  below \<open>2^32\<close>, the constant 100 and \<^verbatim>\<open>Math.ceil\<close> of quotients of such numbers.
  On that range a double quotient rounds to no integer it is not equal to, so
  \<^verbatim>\<open>Math.ceil(a / b)\<close> is the exact ceiling, and the only values that are not natural
  numbers are \<^verbatim>\<open>NaN\<close> (from \<open>0 / 0\<close>) and \<^verbatim>\<open>Infinity\<close> (from \<open>a / 0\<close>, \<open>a > 0\<close>).
\<close>

datatype jsnum = Num nat | Infinity | NaN

text \<open>\<^verbatim>\<open>Math.ceil(a / b)\<close>\<close>

fun ceil_div :: "jsnum \<Rightarrow> jsnum \<Rightarrow> jsnum" where
  "ceil_div (Num a) (Num b) =
     (if b = 0 then (if a = 0 then NaN else Infinity) else Num ((a + b - 1) div b))"
| "ceil_div (Num a) Infinity = Num 0"
| "ceil_div Infinity (Num b) = Infinity"
| "ceil_div _ _ = NaN"

text \<open>\<^verbatim>\<open>a + b\<close>\<close>

fun js_add :: "jsnum \<Rightarrow> jsnum \<Rightarrow> jsnum" where
  "js_add (Num a) (Num b) = Num (a + b)"
| "js_add NaN _ = NaN"
| "js_add _ NaN = NaN"
| "js_add _ _ = Infinity"

text \<open>\<^verbatim>\<open>a < b\<close>: every comparison with \<^verbatim>\<open>NaN\<close> is false.\<close>

fun js_less :: "jsnum \<Rightarrow> jsnum \<Rightarrow> bool" where
  "js_less (Num a) (Num b) = (a < b)"
| "js_less (Num a) Infinity = True"
| "js_less _ _ = False"

text \<open>
  \<^verbatim>\<open>Array.prototype.slice(start, end)\<close> on non-negative arguments: each bound is
  turned into an index (\<^verbatim>\<open>NaN\<close> is 0) and clamped to the length.
\<close>

fun to_index :: "nat \<Rightarrow> jsnum \<Rightarrow> nat" where
  "to_index len (Num k) = min k len"
| "to_index len Infinity = len"
| "to_index len NaN = 0"

definition slice :: "'a list \<Rightarrow> jsnum \<Rightarrow> jsnum \<Rightarrow> 'a list" where
  "slice xs start final =
     (let k = to_index (length xs) start; e = to_index (length xs) final
      in take (e - k) (drop k xs))"

section \<open>Splitting the ids into buckets\<close>

text \<open>
  \<^verbatim>\<open>const bucketSize = Math.ceil(ids.length / Math.ceil(ids.length / 100));\<close>
\<close>

definition bucketSize :: "'a list \<Rightarrow> jsnum" where
  "bucketSize ids = ceil_div (Num (length ids)) (ceil_div (Num (length ids)) (Num 100))"

text \<open>
  \<^verbatim>\<open>for (let i = 0; i < ids.length; i += bucketSize) buckets.push(ids.slice(i, i + bucketSize));\<close>
  As a loop over an arbitrary step it need not end (a step of 0 never advances), so its
  result is optional: \<open>None\<close> is a loop that runs forever.
\<close>

partial_function (option) split_loop ::
  "jsnum \<Rightarrow> jsnum \<Rightarrow> 'a list \<Rightarrow> 'a list list \<Rightarrow> 'a list list option" where
  "split_loop i step ids buckets =
     (if js_less i (Num (length ids))
      then split_loop (js_add i step) step ids (buckets @ [slice ids i (js_add i step)])
      else Some buckets)"

declare split_loop.simps [code]

definition split_ids :: "'a list \<Rightarrow> 'a list list option" where
  "split_ids ids = split_loop (Num 0) (bucketSize ids) ids []"

section \<open>Requests, responses and what a caller can observe\<close>

text \<open>
  An \<^verbatim>\<open>AxiosRequestConfig\<close>, with the fields this program sets; \<open>http_method\<close> is
  its field \<^verbatim>\<open>method\<close>. Query parameters are strings (\<^verbatim>\<open>ids\<close>) or numbers
  (\<^verbatim>\<open>limit\<close>, \<^verbatim>\<open>offset\<close>).
\<close>

datatype param = Str string | Number nat

record config =
  url :: "string option"
  http_method :: "string option"
  params :: "(string \<times> param) list"
  headers :: "(string \<times> string) list"

definition no_config :: config where
  "no_config = \<lparr>url = None, http_method = None, params = [], headers = []\<rparr>"

text \<open>
  The request of \<^verbatim>\<open>tryRefresh\<close>. Its URL is
  \<^verbatim>\<open>'/api/refresh?' + querystring.stringify({refresh_token: ...})\<close>; the model keeps the
  path and the query apart and leaves the percent-encoding of \<^verbatim>\<open>stringify\<close> out.
\<close>

record refresh_request =
  path :: string
  query :: "(string \<times> string) list"
  refresh_method :: string

text \<open>What the network gives back for one request: nothing at all, or a status and a body.\<close>

datatype 'd reply = NoResponse | Response nat 'd

record 'd fetch_result =
  data :: 'd
  status :: nat

record refresh_data =
  access_token :: string

record 'f features_data =
  audio_features :: "'f list"

record images =
  width :: nat
  height :: nat
  image_url :: string

record user_profile =
  display_name :: string
  external_url :: string
  followers_total :: nat
  href :: string
  id :: string
  profile_images :: "images list"
  uri :: string

text \<open>
  Everything that can be thrown: the error axios rejects with (\<^verbatim>\<open>isAxiosError\<close> is true;
  \<^verbatim>\<open>error.response\<close> is present only when a response came), a status thrown by
  \<^verbatim>\<open>throw status\<close>, the response thrown by \<^verbatim>\<open>throw response\<close> in \<^verbatim>\<open>tryRefresh\<close>
  (kept by its status), and the \<^verbatim>\<open>TypeError\<close> of reading \<^verbatim>\<open>.status\<close> of an absent
  \<^verbatim>\<open>error.response\<close>.
\<close>

datatype thrown = AxiosError "nat option" | ThrownStatus nat | ThrownResponse nat | TypeError

text \<open>
  axios with its default \<^verbatim>\<open>validateStatus\<close>: the promise is fulfilled for a status in
  200..299 and rejected otherwise, and rejected when no response arrives.
\<close>

fun axios :: "'d reply \<Rightarrow> thrown + 'd fetch_result" where
  "axios NoResponse = Inl (AxiosError None)"
| "axios (Response st d) =
     (if 200 \<le> st \<and> st < 300 then Inr \<lparr>data = d, status = st\<rparr> else Inl (AxiosError (Some st)))"

text \<open>
  The trace records, in order, each request with the reply it got and each call of a
  caller-supplied callback (\<^verbatim>\<open>onAccessTokenChange\<close>, \<^verbatim>\<open>onGettingUserProfile\<close>; a callback
  that was not supplied defaults to a function that does nothing, and a supplied one is
  taken to return normally).
\<close>

datatype 'd event =
    ApiCall config "'d reply"
  | RefreshCall refresh_request "refresh_data reply"
  | OnAccessTokenChange string
  | OnGettingUserProfile 'd

text \<open>
  The remote side, as far as the program can tell: the reply to a request may depend on
  everything that happened before it.
\<close>

record 'd remote =
  api :: "'d event list \<Rightarrow> config \<Rightarrow> 'd reply"
  refresh :: "'d event list \<Rightarrow> refresh_request \<Rightarrow> refresh_data reply"





section \<open>SpotifyConnection\<close>

text \<open>
  The private fields of the class; \<open>accessToken\<close> is \<^verbatim>\<open>_accessToken\<close>, read through the
  getter of that name. The \<^verbatim>\<open>onAccessTokenChange\<close> field is the callback whose calls the
  trace records.
\<close>

record connection =
  accessToken :: string
  refreshToken :: string

type_synonym 'd state = "connection \<times> 'd event list"

type_synonym ('d, 'a) async = "'d state \<Rightarrow> (thrown + 'a) \<times> 'd state"

definition apiRoot :: string where
  "apiRoot = ''https://api.spotify.com'' @ ''/'' @ ''v1''"

definition throw :: "thrown \<Rightarrow> ('d, 'a) async" where
  "throw e = (\<lambda>s. (Inl e, s))"

text \<open>
  \<^verbatim>\<open>try { return p } catch (error) { h }\<close> inside an \<^verbatim>\<open>async\<close> function, where \<open>p\<close> is the
  promise returned by a call of an \<^verbatim>\<open>async\<close> method. Such a call never throws; it hands
  back a promise, and the \<^verbatim>\<open>try\<close> block is left with it at once. A later rejection of
  \<open>p\<close> settles the outer promise and does not reach the \<^verbatim>\<open>catch\<close> clause: the handler
  runs only under \<^verbatim>\<open>return await p\<close>, which is \<open>try_return_await\<close>.
\<close>

definition try_return :: "('d, 'a) async \<Rightarrow> (thrown \<Rightarrow> ('d, 'a) async) \<Rightarrow> ('d, 'a) async" where
  "try_return p handler = p"

definition try_return_await ::
  "('d, 'a) async \<Rightarrow> (thrown \<Rightarrow> ('d, 'a) async) \<Rightarrow> ('d, 'a) async" where
  "try_return_await p handler =
     (\<lambda>s. case p s of (Inl error, s') \<Rightarrow> handler error s' | (Inr v, s') \<Rightarrow> (Inr v, s'))"

text \<open>
  \<^verbatim>\<open>fetch(endpoint?, config)\<close>: the \<^verbatim>\<open>Authorization\<close> header is set last, the URL is
  \<^verbatim>\<open>endpoint ? apiRoot + endpoint : config.url\<close> (an absent or empty endpoint is falsy).
\<close>

definition fetch :: "'d remote \<Rightarrow> string option \<Rightarrow> config \<Rightarrow> ('d, 'd fetch_result) async" where
  "fetch srv endpoint cfg = (\<lambda>(c, tr).
     let hs = AList.update ''Authorization'' (''Bearer '' @ accessToken c) (headers cfg);
         request = cfg\<lparr>headers := hs,
                       url := (case endpoint of
                                 None \<Rightarrow> url cfg
                               | Some e \<Rightarrow> if e = [] then url cfg else Some (apiRoot @ e))\<rparr>;
         response = api srv tr request
     in (axios response, (c, tr @ [ApiCall request response])))"

definition tryRefresh :: "'d remote \<Rightarrow> ('d, string) async" where
  "tryRefresh srv = (\<lambda>(c, tr).
     let request = \<lparr>path = ''/api/refresh?'',
                    query = [(''refresh_token'', refreshToken c)],
                    refresh_method = ''GET''\<rparr>;
         reply = refresh srv tr request;
         tr' = tr @ [RefreshCall request reply]
     in case axios reply of
          Inl error \<Rightarrow> (Inl error, (c, tr'))
        | Inr response \<Rightarrow>
            if status response \<noteq> 200 then (Inl (ThrownResponse (status response)), (c, tr'))
            else let c' = c\<lparr>accessToken := access_token (data response)\<rparr>
                 in (Inr (accessToken c'), (c', tr')))"

text \<open>
  \<^verbatim>\<open>get\<close>: the \<^verbatim>\<open>catch\<close> clause tests \<^verbatim>\<open>error.isAxiosError && error.response.status === 401\<close>,
  refreshes, passes the new token to \<^verbatim>\<open>onAccessTokenChange\<close> and fetches again; any other
  error is thrown again. The \<^verbatim>\<open>try\<close> block is \<^verbatim>\<open>return this.fetch(...)\<close>, without
  \<^verbatim>\<open>await\<close>.
\<close>

definition get_handler :: "'d remote \<Rightarrow> string option \<Rightarrow> config \<Rightarrow> thrown \<Rightarrow> ('d, 'd fetch_result) async" where
  "get_handler srv endpoint cfg error =
     (case error of
        AxiosError None \<Rightarrow> throw TypeError
      | AxiosError (Some st) \<Rightarrow>
          if st = 401
          then (\<lambda>s. case tryRefresh srv s of
                       (Inl e, s') \<Rightarrow> (Inl e, s')
                     | (Inr newToken, (c, tr)) \<Rightarrow>
                         fetch srv endpoint (cfg\<lparr>http_method := Some ''get''\<rparr>)
                           (c, tr @ [OnAccessTokenChange newToken]))
          else throw error
      | _ \<Rightarrow> throw error)"

definition get :: "'d remote \<Rightarrow> string option \<Rightarrow> config \<Rightarrow> ('d, 'd fetch_result) async" where
  "get srv endpoint cfg =
     try_return (fetch srv endpoint (cfg\<lparr>http_method := Some ''get''\<rparr>)) (get_handler srv endpoint cfg)"

definition fetchUserProfile :: "'d remote \<Rightarrow> ('d, 'd) async" where
  "fetchUserProfile srv = (\<lambda>s.
     case get srv (Some ''/me'') no_config s of
       (Inl error, s') \<Rightarrow> (Inl error, s')
     | (Inr r, s') \<Rightarrow>
         if status r \<noteq> 200 then (Inl (ThrownStatus (status r)), s') else (Inr (data r), s'))"

text \<open>
  \<^verbatim>\<open>establish\<close> and \<^verbatim>\<open>reestablish\<close> build the connection and return it; the trace they
  start from is whatever happened before the call.
\<close>

definition establish ::
  "'d remote \<Rightarrow> string \<Rightarrow> string \<Rightarrow> 'd event list \<Rightarrow> (thrown + connection) \<times> 'd state" where
  "establish srv accessToken' refreshToken' tr0 =
     (let connection = \<lparr>accessToken = accessToken', refreshToken = refreshToken'\<rparr>
      in case fetchUserProfile srv (connection, tr0) of
           (Inl error, s') \<Rightarrow> (Inl error, s')
         | (Inr profile, (c, tr)) \<Rightarrow> (Inr c, (c, tr @ [OnGettingUserProfile profile])))"

definition reestablish ::
  "'d remote \<Rightarrow> string \<Rightarrow> 'd event list \<Rightarrow> (thrown + connection) \<times> 'd state" where
  "reestablish srv refreshToken' tr0 =
     (let connection = \<lparr>accessToken = [], refreshToken = refreshToken'\<rparr>
      in case tryRefresh srv (connection, tr0) of
           (Inl error, s') \<Rightarrow> (Inl error, s')
         | (Inr newToken, s') \<Rightarrow>
             (case fetchUserProfile srv s' of
                (Inl error, s'') \<Rightarrow> (Inl error, s'')
              | (Inr profile, (c, tr)) \<Rightarrow> (Inr c, (c, tr @ [OnGettingUserProfile profile]))))"

text \<open>
  The fetcher closures that \<^verbatim>\<open>fetchUserPlaylists\<close> and \<^verbatim>\<open>fetchPlaylistTracks\<close> hand to
  \<^verbatim>\<open>Paged.create\<close>: one \<^verbatim>\<open>get\<close>, of which only \<^verbatim>\<open>.data\<close> is kept.
\<close>

definition playlists_fetcher :: "'d remote \<Rightarrow> nat \<Rightarrow> nat \<Rightarrow> ('d, 'd) async" where
  "playlists_fetcher srv limit offset = (\<lambda>s.
     case get srv (Some ''/me/playlists'')
            (no_config\<lparr>params := [(''limit'', Number limit), (''offset'', Number offset)]\<rparr>) s of
       (Inl error, s') \<Rightarrow> (Inl error, s')
     | (Inr r, s') \<Rightarrow> (Inr (data r), s'))"

definition tracks_fetcher :: "'d remote \<Rightarrow> string \<Rightarrow> nat \<Rightarrow> nat \<Rightarrow> ('d, 'd) async" where
  "tracks_fetcher srv playlist limit offset = (\<lambda>s.
     case get srv (Some (''/playlists/'' @ playlist @ ''/tracks''))
            (no_config\<lparr>params := [(''limit'', Number limit), (''offset'', Number offset)]\<rparr>) s of
       (Inl error, s') \<Rightarrow> (Inl error, s')
     | (Inr r, s') \<Rightarrow> (Inr (data r), s'))"

section \<open>The earlier form of the class\<close>

text \<open>
  The second source file of the class has no retry in \<^verbatim>\<open>get\<close>; its \<^verbatim>\<open>verify\<close> refreshes
  in place, inside \<^verbatim>\<open>try { return await this.fetchUserProfile(); } catch (error) { ... }\<close>.
  There \<^verbatim>\<open>fetch\<close> always requests \<^verbatim>\<open>apiRoot + endpoint\<close>.
\<close>

definition fetch_v0 :: "'d remote \<Rightarrow> string \<Rightarrow> config \<Rightarrow> ('d, 'd fetch_result) async" where
  "fetch_v0 srv endpoint cfg = (\<lambda>(c, tr).
     let hs = AList.update ''Authorization'' (''Bearer '' @ accessToken c) (headers cfg);
         request = cfg\<lparr>headers := hs, url := Some (apiRoot @ endpoint)\<rparr>;
         response = api srv tr request
     in (axios response, (c, tr @ [ApiCall request response])))"

definition get_v0 :: "'d remote \<Rightarrow> string \<Rightarrow> config \<Rightarrow> ('d, 'd fetch_result) async" where
  "get_v0 srv endpoint cfg = fetch_v0 srv endpoint (cfg\<lparr>http_method := Some ''get''\<rparr>)"

definition fetchUserProfile_v0 :: "'d remote \<Rightarrow> ('d, 'd) async" where
  "fetchUserProfile_v0 srv = (\<lambda>s.
     case get_v0 srv ''/me'' no_config s of
       (Inl error, s') \<Rightarrow> (Inl error, s')
     | (Inr r, s') \<Rightarrow>
         if status r \<noteq> 200 then (Inl (ThrownStatus (status r)), s') else (Inr (data r), s'))"

definition verify :: "'d remote \<Rightarrow> ('d, 'd) async" where
  "verify srv =
     try_return_await (fetchUserProfile_v0 srv)
       (\<lambda>error. case error of
          AxiosError None \<Rightarrow> throw TypeError
        | AxiosError (Some st) \<Rightarrow>
            if st = 401
            then (\<lambda>(c, tr).
              let request = \<lparr>path = ''/api/refresh?'',
                             query = [(''refresh_token'', refreshToken c)],
                             refresh_method = ''GET''\<rparr>;
                  reply = refresh srv tr request;
                  tr' = tr @ [RefreshCall request reply]
              in case axios reply of
                   Inl e \<Rightarrow> (Inl e, (c, tr'))
                 | Inr response \<Rightarrow>
                     if status response = 200
                     then let c' = c\<lparr>accessToken := access_token (data response)\<rparr>
                          in fetchUserProfile_v0 srv (c', tr' @ [OnAccessTokenChange (accessToken c')])
                     else (Inl (ThrownStatus (status response)), (c, tr')))
            else throw error
        | _ \<Rightarrow> throw error)"

section \<open>Audio features in bulk\<close>

text \<open>\<^verbatim>\<open>ids.join(',')\<close>\<close>

fun join :: "string list \<Rightarrow> string" where
  "join [] = []"
| "join [x] = x"
| "join (x # y # ys) = x @ '','' @ join (y # ys)"

definition fetchAudioFeaturesOfBucket ::
  "'f features_data remote \<Rightarrow> string list \<Rightarrow> ('f features_data, 'f list) async" where
  "fetchAudioFeaturesOfBucket srv ids = (\<lambda>s.
     case get srv (Some ''/audio-features'') (no_config\<lparr>params := [(''ids'', Str (join ids))]\<rparr>) s of
       (Inl error, s') \<Rightarrow> (Inl error, s')
     | (Inr result, s') \<Rightarrow>
         if status result \<noteq> 200 then (Inl (ThrownStatus (status result)), s')
         else (Inr (audio_features (data result)), s'))"

text \<open>
  \<^verbatim>\<open>buckets.map((bucket) => this.fetchAudioFeaturesOfBucket(bucket))\<close> starts the calls
  one after the other; each runs up to its request before the next one starts, and no
  call touches the connection afterwards. The list holds what each promise settles to.
\<close>

fun start_all :: "('a \<Rightarrow> 's \<Rightarrow> 'r \<times> 's) \<Rightarrow> 'a list \<Rightarrow> 's \<Rightarrow> 'r list \<times> 's" where
  "start_all f [] s = ([], s)"
| "start_all f (x # xs) s =
     (case f x s of (r, s') \<Rightarrow> (case start_all f xs s' of (rs, s'') \<Rightarrow> (r # rs, s'')))"

text \<open>
  \<^verbatim>\<open>Promise.all\<close>. The promises settle in some order, given as the list of their indices
  in the order of settling (an index that is missing never settles). The result is
  rejected with the reason of the first promise that rejects; it is fulfilled, with the
  values in index order, once every promise is fulfilled; otherwise it stays pending
  (\<open>None\<close>).
\<close>

fun first_rejection :: "nat list \<Rightarrow> ('e + 'a) list \<Rightarrow> 'e option" where
  "first_rejection [] rs = None"
| "first_rejection (i # order) rs =
     (if i < length rs
      then (case rs ! i of Inl e \<Rightarrow> Some e | Inr v \<Rightarrow> first_rejection order rs)
      else first_rejection order rs)"

fun fulfilled :: "('e + 'a) list \<Rightarrow> 'a list option" where
  "fulfilled [] = Some []"
| "fulfilled (Inl e # rs) = None"
| "fulfilled (Inr v # rs) = map_option ((#) v) (fulfilled rs)"

definition promise_all :: "nat list \<Rightarrow> ('e + 'a) list \<Rightarrow> ('e + 'a list) option" where
  "promise_all order rs =
     (case first_rejection order rs of
        Some e \<Rightarrow> Some (Inl e)
      | None \<Rightarrow>
          if list_all (\<lambda>i. i \<in> set order) [0..<length rs]
          then map_option Inr (fulfilled rs) else None)"

text \<open>
  \<^verbatim>\<open>fetchAudioFeatures\<close>; \<^verbatim>\<open>.flat()\<close> is \<open>concat\<close>. \<open>None\<close> is a call whose promise never
  settles.
\<close>

definition fetchAudioFeatures ::
  "'f features_data remote \<Rightarrow> nat list \<Rightarrow> string list \<Rightarrow> 'f features_data state
     \<Rightarrow> ((thrown + 'f list) \<times> 'f features_data state) option" where
  "fetchAudioFeatures srv order ids s =
     (case split_ids ids of
        None \<Rightarrow> None
      | Some buckets \<Rightarrow>
          (case start_all (fetchAudioFeaturesOfBucket srv) buckets s of
             (results, s') \<Rightarrow>
               (case promise_all order results of
                  None \<Rightarrow> None
                | Some (Inl error) \<Rightarrow> Some (Inl error, s')
                | Some (Inr features) \<Rightarrow> Some (Inr (concat features), s'))))"

text \<open>
  Two names for what \<^verbatim>\<open>fetchAudioFeaturesOfBucket\<close> does, used to state its properties:
  the request it hands to axios for a bucket, and what its promise settles to for a
  given reply.
\<close>

definition bucket_request :: "connection \<Rightarrow> string list \<Rightarrow> config" where
  "bucket_request c ids =
     \<lparr>url = Some (apiRoot @ ''/audio-features''), http_method = Some ''get'',
      params = [(''ids'', Str (join ids))],
      headers = [(''Authorization'', ''Bearer '' @ accessToken c)]\<rparr>"

definition bucket_outcome :: "'f features_data reply \<Rightarrow> thrown + 'f list" where
  "bucket_outcome rep =
     (case axios rep of
        Inl error \<Rightarrow> Inl error
      | Inr result \<Rightarrow>
          if status result \<noteq> 200 then Inl (ThrownStatus (status result))
          else Inr (audio_features (data result)))"

text \<open>The replies the remote side gives to the bucket requests, in bucket order.\<close>

fun chunk_replies ::
  "'f features_data remote \<Rightarrow> connection \<Rightarrow> 'f features_data event list \<Rightarrow> string list list
     \<Rightarrow> 'f features_data reply list" where
  "chunk_replies srv c tr [] = []"
| "chunk_replies srv c tr (b # bs) =
     api srv tr (bucket_request c b) #
     chunk_replies srv c (tr @ [ApiCall (bucket_request c b) (api srv tr (bucket_request c b))]) bs"

definition chunk_calls ::
  "connection \<Rightarrow> string list list \<Rightarrow> 'd reply list \<Rightarrow> 'd event list" where
  "chunk_calls c buckets replies = map (\<lambda>(b, rep). ApiCall (bucket_request c b) rep) (zip buckets replies)"

section \<open>Paged\<close>

text \<open>
  Modelled from the spec: the class \<^verbatim>\<open>Paged\<close> of \<^verbatim>\<open>classes/Paged\<close> and its
  \<^verbatim>\<open>SpotifyPage\<close>, which the sources import and do not contain. A page is
  \<open>{items, total, limit, offset}\<close>, with \<open>limit\<close> and \<open>offset\<close> those of the request.
\<close>

record 'a page =
  items :: "'a list"
  page_total :: nat
  limit :: nat
  offset :: nat

text \<open>
  Modelled from the spec: the state of a \<^verbatim>\<open>Paged\<close> container,
  \<open>{pageSize, fetchedItems, total: integer | unknown, nextOffset}\<close>; the fetcher is passed
  to each operation.
\<close>

record 'a paged =
  pageSize :: nat
  fetchedItems :: "'a list"
  known_total :: "nat option"
  nextOffset :: nat

datatype 'e fetch_error = Exhausted | InvalidTotal | Underlying 'e

text \<open>
  Modelled from the spec: \<^verbatim>\<open>Paged.create\<close>, which builds the container in the state
  where nothing is fetched and makes no request.
\<close>

definition create :: "nat \<Rightarrow> 'a paged" where
  "create n = \<lparr>pageSize = n, fetchedItems = [], known_total = None, nextOffset = 0\<rparr>"

text \<open>
  Modelled from the spec: \<^verbatim>\<open>fetchNext\<close>. It fails when \<open>nextOffset\<close> already equals the
  known total; otherwise it makes one page request at \<open>(pageSize, nextOffset)\<close> and hands a
  failure of the fetcher on unchanged. A response is fully successful when its total is
  valid, that is, when the items it brings do not carry the container past that total
  (\<open>nextOffset + items.length \<le> total\<close>, the invariant of a page at this offset); only
  then are the items appended, \<open>nextOffset\<close> advanced by their number and the total
  recorded, and the new items returned. Every failure leaves the container as it was.
\<close>

definition fetchNext ::
  "(nat \<Rightarrow> nat \<Rightarrow> 'e + 'a page) \<Rightarrow> 'a paged \<Rightarrow> ('e fetch_error + 'a list) \<times> 'a paged" where
  "fetchNext fetcher p =
     (if known_total p = Some (nextOffset p) then (Inl Exhausted, p)
      else case fetcher (pageSize p) (nextOffset p) of
             Inl e \<Rightarrow> (Inl (Underlying e), p)
           | Inr pg \<Rightarrow>
               if page_total pg < nextOffset p + length (items pg) then (Inl InvalidTotal, p)
               else (Inr (items pg),
                     p\<lparr>fetchedItems := fetchedItems p @ items pg,
                       nextOffset := nextOffset p + length (items pg),
                       known_total := Some (page_total pg)\<rparr>))"

text \<open>
  Modelled from the spec: a sequence of \<^verbatim>\<open>fetchNext\<close> calls on one container, each
  call with what the fetcher does at that moment.
\<close>

fun fetchNexts :: "(nat \<Rightarrow> nat \<Rightarrow> 'e + 'a page) list \<Rightarrow> 'a paged \<Rightarrow> 'a paged" where
  "fetchNexts [] p = p"
| "fetchNexts (f # fs) p = fetchNexts fs (snd (fetchNext f p))"

section \<open>Concrete remote sides\<close>

definition some_profile :: user_profile where
  "some_profile =
     \<lparr>display_name = ''Ada'', external_url = ''https://open.spotify.com/user/ada'',
      followers_total = 3, href = ''https://api.spotify.com/v1/users/ada'', id = ''ada'',
      profile_images = [], uri = ''spotify:user:ada''\<rparr>"

definition no_profile :: user_profile where
  "no_profile =
     \<lparr>display_name = [], external_url = [], followers_total = 0, href = [], id = [],
      profile_images = [], uri = []\<rparr>"

text \<open>
  A remote side where the access token \<open>fresh\<close> is the only valid one and the refresh
  token \<open>valid\<close> buys it: any other bearer gets 401, any other refresh token 400.
\<close>

definition stale_remote :: "user_profile remote" where
  "stale_remote =
     \<lparr>api = (\<lambda>tr request.
         if map_of (headers request) ''Authorization'' = Some ''Bearer fresh''
         then Response 200 some_profile else Response 401 no_profile),
      refresh = (\<lambda>tr request.
         if map_of (query request) ''refresh_token'' = Some ''valid''
         then Response 200 \<lparr>access_token = ''fresh''\<rparr>
         else Response 400 \<lparr>access_token = []\<rparr>)\<rparr>"


definition stale_connection :: connection where
  "stale_connection = \<lparr>accessToken = ''stale'', refreshToken = ''valid''\<rparr>"

definition me_request :: "string \<Rightarrow> config" where
  "me_request token =
     \<lparr>url = Some ''https://api.spotify.com/v1/me'', http_method = Some ''get'', params = [],
      headers = [(''Authorization'', ''Bearer '' @ token)]\<rparr>"

definition the_refresh_request :: "string \<Rightarrow> refresh_request" where
  "the_refresh_request token =
     \<lparr>path = ''/api/refresh?'', query = [(''refresh_token'', token)], refresh_method = ''GET''\<rparr>"

text \<open>
  Two remote sides for audio features. The first answers every request with 200 and one
  feature; the second does so for the first request of a trace only and refuses every
  later one with 429.
\<close>

definition features_remote :: "string features_data remote" where
  "features_remote =
     \<lparr>api = (\<lambda>tr request. Response 200 \<lparr>audio_features = [''f'']\<rparr>),
      refresh = (\<lambda>tr request. Response 400 \<lparr>access_token = []\<rparr>)\<rparr>"

definition limited_remote :: "string features_data remote" where
  "limited_remote =
     \<lparr>api = (\<lambda>tr request.
         if tr = [] then Response 200 \<lparr>audio_features = [''f'']\<rparr>
         else Response 429 \<lparr>audio_features = []\<rparr>),
      refresh = (\<lambda>tr request. Response 400 \<lparr>access_token = []\<rparr>)\<rparr>"

text \<open>
  A collection of 120 items served in pages, a fetcher that always fails, and a fetcher
  whose page brings three items under a total of 0.
\<close>

definition collection_fetcher :: "nat \<Rightarrow> nat \<Rightarrow> unit + nat page" where
  "collection_fetcher lim off =
     (if off \<le> 120
      then Inr \<lparr>items = take lim (drop off [0..<120]), page_total = 120, limit = lim, offset = off\<rparr>
      else Inl ())"

definition failing_fetcher :: "nat \<Rightarrow> nat \<Rightarrow> unit + nat page" where
  "failing_fetcher lim off = Inl ()"

definition overfull_fetcher :: "nat \<Rightarrow> nat \<Rightarrow> unit + nat page" where
  "overfull_fetcher lim off = Inr \<lparr>items = [7, 8, 9], page_total = 0, limit = lim, offset = off\<rparr>"

section \<open>The partition into buckets\<close>


lemma slice_Num:
  "i < length ids \<Longrightarrow> slice ids (Num i) (Num (i + b)) = take b (drop i ids)"
  by (simp add: slice_def Let_def min_def)

lemma upt_map_shift: "map f [0..<Suc m] = f 0 # map (\<lambda>j. f (Suc j)) [0..<m]"
  by (simp add: upt_conv_Cons map_Suc_upt [symmetric] del: upt_Suc)

lemma iterations_step:
  fixes n i b :: nat
  assumes "i < n" "0 < b"
  shows "(n - i + b - 1) div b = Suc ((n - (i + b) + b - 1) div b)"
proof -
  have "n - i + b - 1 = (n - i - 1) + b" using assms by simp
  then have "(n - i + b - 1) div b = ((n - i - 1) + b) div b" by (rule arg_cong)
  also have "\<dots> = Suc ((n - i - 1) div b)" using assms by (simp only: div_add_self2 add_Suc_right add_0_right One_nat_def)
  finally have l: "(n - i + b - 1) div b = Suc ((n - i - 1) div b)" .
  show ?thesis
  proof (cases "i + b \<le> n")
    case True
    then have "n - (i + b) + b - 1 = n - i - 1" using assms by simp
    with l show ?thesis by simp
  next
    case False
    then have "n - (i + b) + b - 1 = b - 1" "n - i - 1 < b" using assms by simp_all
    with l show ?thesis using assms by simp
  qed
qed

lemma split_loop_Num:
  assumes "0 < b"
  shows "split_loop (Num i) (Num b) ids acc =
     Some (acc @ map (\<lambda>j. take b (drop (i + j * b) ids)) [0..<(length ids - i + b - 1) div b])"
proof (induction "length ids - i" arbitrary: i acc rule: less_induct)
  case less
  show ?case
  proof (cases "i < length ids")
    case False
    then have "(length ids - i + b - 1) div b = 0" using assms by simp
    with False show ?thesis by (subst split_loop.simps) simp
  next
    case True
    have lt: "length ids - (i + b) < length ids - i" using True assms by simp
    have "split_loop (Num i) (Num b) ids acc =
          split_loop (Num (i + b)) (Num b) ids (acc @ [take b (drop i ids)])"
      using True by (subst split_loop.simps) (simp add: slice_Num)
    also have "\<dots> = Some ((acc @ [take b (drop i ids)]) @
        map (\<lambda>j. take b (drop (i + b + j * b) ids)) [0..<(length ids - (i + b) + b - 1) div b])"
      by (rule less [OF lt])
    also have "\<dots> = Some (acc @ map (\<lambda>j. take b (drop (i + j * b) ids))
        [0..<Suc ((length ids - (i + b) + b - 1) div b)])"
      by (simp only: upt_map_shift) (simp add: ac_simps)
    finally show ?thesis by (simp only: iterations_step [OF True assms])
  qed
qed


lemma concat_chunks: "concat (map (\<lambda>j. take b (drop (j * b) xs)) [0..<k]) = take (k * b) xs"
proof (induction k)
  case 0
  show ?case by simp
next
  case (Suc k)
  have "take (k * b) xs @ take b (drop (k * b) xs) = take (k * b + b) xs"
    by (simp add: take_add)
  with Suc show ?case by (simp add: add.commute)
qed

lemma chunk_arith:
  fixes n :: nat
  assumes "0 < n"
  defines "k \<equiv> (n + 99) div 100"
  defines "b \<equiv> (n + k - 1) div k"
  shows "0 < k" "0 < b" "b \<le> 100" "n \<le> k * b" "(k - 1) * b < n" "(n + b - 1) div b = k"
proof -
  show k: "0 < k" using assms by (simp add: k_def)
  have k100: "n \<le> 100 * k" "100 * (k - 1) < n" using assms unfolding k_def by arith+
  have "k \<le> n + k - 1" using assms by simp
  then have "k div k \<le> (n + k - 1) div k" by (rule div_le_mono)
  then show b: "0 < b" using k by (simp add: b_def)
  have "n + k - 1 < 101 * k" using k100 k by simp
  then have "(n + k - 1) div k < 101" using k by (simp add: less_mult_imp_div_less)
  then show b100: "b \<le> 100" by (simp add: b_def)
  have "n + k - 1 < k * (Suc b)" unfolding b_def using k
    by (metis dividend_less_times_div mult_Suc_right add.commute)
  then show nkb: "n \<le> k * b" using k by simp
  have "(k - 1) * b \<le> (k - 1) * 100" by (rule mult_le_mono2 [OF b100])
  also have "\<dots> = 100 * (k - 1)" by (rule mult.commute)
  also have "\<dots> < n" by (rule k100(2))
  finally show kb: "(k - 1) * b < n" .
  have "(k - 1) * b + b = k * b" using k by (cases k) simp_all
  have lo: "k * b \<le> n + b - 1" using kb \<open>(k - 1) * b + b = k * b\<close> by simp
  have hi: "n + b - 1 < Suc k * b" using nkb b by simp
  from lo have "k \<le> (n + b - 1) div b" using b
    by (metis div_le_mono div_mult_self_is_m)
  moreover from hi have "(n + b - 1) div b < Suc k" using b
    by (simp add: less_mult_imp_div_less)
  ultimately show "(n + b - 1) div b = k" by simp
qed

lemma bucketSize_nonempty:
  assumes "ids \<noteq> []"
  shows "bucketSize ids =
     Num ((length ids + (length ids + 99) div 100 - 1) div ((length ids + 99) div 100))"
proof -
  define n where "n = length ids"
  define k where "k = (n + 99) div 100"
  have "0 < n" using assms by (simp add: n_def)
  then have k: "0 < k" unfolding k_def by (rule chunk_arith(1))
  have "ceil_div (Num n) (Num 100) = Num k" by (simp add: k_def)
  moreover have "ceil_div (Num n) (Num k) = Num ((n + k - 1) div k)" using k by simp
  ultimately have "bucketSize ids = Num ((n + k - 1) div k)"
    by (simp only: bucketSize_def n_def [symmetric])
  then show ?thesis by (simp only: k_def n_def)
qed

lemma split_ids_nonempty:
  assumes "ids \<noteq> []"
  defines "k \<equiv> (length ids + 99) div 100"
  defines "b \<equiv> (length ids + k - 1) div k"
  shows "split_ids ids = Some (map (\<lambda>j. take b (drop (j * b) ids)) [0..<k])"
proof -
  have n: "0 < length ids" using assms by simp
  have b: "0 < b" and cnt: "(length ids + b - 1) div b = k"
    unfolding b_def k_def by (rule chunk_arith [OF n])+
  have "split_ids ids = split_loop (Num 0) (Num b) ids []"
    unfolding split_ids_def b_def k_def by (simp only: bucketSize_nonempty [OF assms(1)])
  also have "\<dots> = Some ([] @ map (\<lambda>j. take b (drop (0 + j * b) ids))
      [0..<(length ids - 0 + b - 1) div b])"
    by (rule split_loop_Num [OF b])
  finally show ?thesis using cnt by simp
qed

text \<open>
  Claim C2, as the code has it. A non-empty list of \<open>n\<close> ids is cut into exactly
  \<open>k = \<lceil>n / 100\<rceil>\<close> contiguous buckets whose concatenation is the list. With
  \<open>b = \<lceil>n / k\<rceil>\<close>, bucket \<open>j\<close> is the slice from \<open>j * b\<close> of length at most \<open>b\<close>: every
  bucket but the last holds exactly \<open>b\<close> ids, and the last one holds the remaining
  \<open>n - (k - 1) * b\<close>, at least one and at most \<open>b\<close>; no bucket exceeds 100 ids.
\<close>

theorem split_ids_partition:
  assumes "ids \<noteq> []"
  shows "let n = length ids; k = (n + 99) div 100; b = (n + k - 1) div k in
     \<exists>buckets. split_ids ids = Some buckets \<and> length buckets = k \<and> concat buckets = ids \<and>
       (\<forall>j<k. buckets ! j = take b (drop (j * b) ids)) \<and>
       (\<forall>j<k - 1. length (buckets ! j) = b) \<and>
       length (buckets ! (k - 1)) = n - (k - 1) * b \<and>
       0 < n - (k - 1) * b \<and> n - (k - 1) * b \<le> b \<and> b \<le> 100"
proof -
  define n where "n = length ids"
  define k where "k = (n + 99) div 100"
  define b where "b = (n + k - 1) div k"
  define buckets where "buckets = map (\<lambda>j. take b (drop (j * b) ids)) [0..<k]"
  have n: "0 < n" using assms by (simp add: n_def)
  note ar = chunk_arith [OF n, folded k_def, folded b_def]
  have 1: "split_ids ids = Some buckets"
    unfolding buckets_def b_def k_def n_def by (rule split_ids_nonempty [OF assms])
  have 2: "length buckets = k" by (simp add: buckets_def)
  have 3: "concat buckets = ids"
    unfolding buckets_def using ar(4) by (simp add: concat_chunks n_def)
  have 4: "\<forall>j<k. buckets ! j = take b (drop (j * b) ids)" by (simp add: buckets_def)
  have 5: "\<forall>j<k - 1. length (buckets ! j) = b"
  proof (intro allI impI)
    fix j assume j: "j < k - 1"
    then have "Suc j \<le> k - 1" by simp
    then have "Suc j * b \<le> (k - 1) * b" by (rule mult_le_mono1)
    then have "j * b + b \<le> n" using ar(5) by simp
    then show "length (buckets ! j) = b" using j by (simp add: buckets_def n_def)
  qed
  have kb: "(k - 1) * b + b = k * b" using ar(1) by (cases k) simp_all
  have 6: "length (buckets ! (k - 1)) = n - (k - 1) * b"
    using ar(1) ar(4) kb by (simp add: buckets_def n_def)
  have 7: "0 < n - (k - 1) * b" using ar(5) by simp
  have 8: "n - (k - 1) * b \<le> b" using ar(4) kb by simp
  show ?thesis
    unfolding Let_def n_def [symmetric] k_def [symmetric] b_def [symmetric]
    using 1 2 3 4 5 6 7 8 ar(3) by blast
qed

lemma first_rejection_Nil: "first_rejection order [] = None"
  by (induction order) simp_all

text \<open>
  Claim C10. For the empty list the bucket size is \<^verbatim>\<open>NaN\<close>, the loop body never runs,
  no request is made (the trace and the connection are unchanged) and the result is the
  empty list, whatever the settling order.
\<close>

theorem fetchAudioFeatures_empty:
  "bucketSize ([] :: string list) = NaN \<and> split_ids ([] :: string list) = Some [] \<and>
   fetchAudioFeatures srv order [] s = Some (Inr [], s)"
  by (simp add: bucketSize_def split_ids_def split_loop.simps fetchAudioFeatures_def
      promise_all_def first_rejection_Nil)

text \<open>
  Claim C2 as stated fails for 250 ids: the buckets have 84, 84 and 82 ids, not 84, 83
  and 83, and 82 is neither \<open>\<lfloor>250 / 3\<rfloor>\<close> nor \<open>\<lceil>250 / 3\<rceil>\<close>.
\<close>

theorem split_ids_250_counterexample:
  "map_option (map length) (split_ids (replicate 250 ''id'')) = Some [84, 84, 82] \<and>
   map_option (map length) (split_ids (replicate 250 ''id'')) \<noteq> Some [84, 83, 83]"
  by code_simp

text \<open>The partition theorem at 250 ids.\<close>

theorem split_ids_partition_witness:
  "replicate 250 ''id'' \<noteq> [] \<and>
   (\<exists>buckets. split_ids (replicate 250 ''id'') = Some buckets \<and> length buckets = 3 \<and>
      concat buckets = replicate 250 ''id'' \<and> length (buckets ! 0) = 84 \<and>
      length (buckets ! 1) = 84 \<and> length (buckets ! 2) = 82)"
proof -
  have ne: "replicate 250 ''id'' \<noteq> []" by simp
  have k: "(250 + 99) div 100 = (3::nat)" "(250 + 3 - 1) div 3 = (84::nat)" by simp_all
  from split_ids_partition [OF ne]
  obtain buckets where "split_ids (replicate 250 ''id'') = Some buckets" "length buckets = 3"
    "concat buckets = replicate 250 ''id''" "\<forall>j<2. length (buckets ! j) = 84"
    "length (buckets ! 2) = 250 - 2 * 84"
    unfolding Let_def length_replicate k by auto
  then show ?thesis using ne by (intro conjI exI [of _ buckets]) simp_all
qed


section \<open>What get does\<close>

text \<open>
  The \<^verbatim>\<open>catch\<close> clause of \<^verbatim>\<open>get\<close> is never entered: \<^verbatim>\<open>get\<close> is \<^verbatim>\<open>fetch\<close> with the method
  set, one request and nothing else.
\<close>

lemma get_is_fetch: "get srv endpoint cfg = fetch srv endpoint (cfg\<lparr>http_method := Some ''get''\<rparr>)"
  by (simp add: get_def try_return_def)

section \<open>The bulk fetch\<close>

lemma bucket_eq:
  "fetchAudioFeaturesOfBucket srv b (c, tr) =
     (bucket_outcome (api srv tr (bucket_request c b)),
      (c, tr @ [ApiCall (bucket_request c b) (api srv tr (bucket_request c b))]))"
  by (simp add: fetchAudioFeaturesOfBucket_def get_is_fetch fetch_def bucket_request_def
      bucket_outcome_def no_config_def Let_def split: sum.splits)

lemma chunk_calls_Nil: "chunk_calls c [] [] = []"
  by (simp add: chunk_calls_def)

lemma chunk_calls_Cons:
  "chunk_calls c (b # bs) (rep # reps) = ApiCall (bucket_request c b) rep # chunk_calls c bs reps"
  by (simp add: chunk_calls_def)

lemma length_chunk_replies: "length (chunk_replies srv c tr bs) = length bs"
  by (induction bs arbitrary: tr) simp_all

lemma start_all_buckets:
  "start_all (fetchAudioFeaturesOfBucket srv) bs (c, tr) =
     (map bucket_outcome (chunk_replies srv c tr bs),
      (c, tr @ chunk_calls c bs (chunk_replies srv c tr bs)))"
proof (induction bs arbitrary: tr)
  case Nil
  show ?case by (simp add: chunk_calls_Nil)
next
  case (Cons b bs)
  show ?case by (simp add: bucket_eq Cons.IH chunk_calls_Cons)
qed

lemma bucket_outcome_200: "bucket_outcome (Response 200 d) = Inr (audio_features d)"
  by (simp add: bucket_outcome_def)

lemma bucket_outcome_isl: "isl (bucket_outcome rep) \<longleftrightarrow> (\<forall>d. rep \<noteq> Response 200 d)"
  by (cases rep) (auto simp add: bucket_outcome_def)

lemma first_rejection_none:
  "\<forall>r\<in>set rs. \<not> isl r \<Longrightarrow> first_rejection order rs = None"
proof (induction order)
  case Nil
  show ?case by simp
next
  case (Cons i order)
  show ?case
  proof (cases "i < length rs")
    case False
    with Cons show ?thesis by simp
  next
    case True
    then have "rs ! i \<in> set rs" by (rule nth_mem)
    with Cons.prems have "\<not> isl (rs ! i)" by blast
    with Cons True show ?thesis by (cases "rs ! i") simp_all
  qed
qed

lemma first_rejection_some:
  "i \<in> set order \<Longrightarrow> i < length rs \<Longrightarrow> isl (rs ! i) \<Longrightarrow> \<exists>e. first_rejection order rs = Some e"
proof (induction order)
  case Nil
  then show ?case by simp
next
  case (Cons j order)
  show ?case
  proof (cases "j < length rs")
    case False
    with Cons show ?thesis by auto
  next
    case True
    show ?thesis
    proof (cases "rs ! j")
      case (Inl e)
      with True show ?thesis by simp
    next
      case (Inr v)
      with Cons.prems have "i \<noteq> j" by auto
      with Cons Inr True show ?thesis by simp
    qed
  qed
qed

lemma fulfilled_all: "\<forall>r\<in>set rs. \<not> isl r \<Longrightarrow> fulfilled rs = Some (map projr rs)"
proof (induction rs)
  case Nil
  show ?case by simp
next
  case (Cons r rs)
  then show ?case by (cases r) simp_all
qed

lemma fulfilled_none: "\<exists>r\<in>set rs. isl r \<Longrightarrow> fulfilled rs = None"
proof (induction rs)
  case Nil
  then show ?case by simp
next
  case (Cons r rs)
  then show ?case by (cases r) auto
qed

lemma promise_all_never_fulfils:
  assumes "\<exists>r\<in>set rs. isl r"
  shows "promise_all order rs \<noteq> Some (Inr vs)"
  using fulfilled_none [OF assms] by (simp add: promise_all_def split: option.splits)

lemma promise_all_rejects:
  assumes "i \<in> set order" "i < length rs" "isl (rs ! i)"
  shows "\<exists>e. promise_all order rs = Some (Inl e)"
proof -
  from first_rejection_some [OF assms] obtain e where "first_rejection order rs = Some e" ..
  then show ?thesis by (simp add: promise_all_def)
qed

lemma promise_all_fulfils:
  assumes "\<forall>r\<in>set rs. \<not> isl r" "\<forall>i<length rs. i \<in> set order"
  shows "promise_all order rs = Some (Inr (map projr rs))"
  using assms
  by (simp add: promise_all_def first_rejection_none fulfilled_all list_all_iff)

lemma split_ids_total: "\<exists>buckets. split_ids ids = Some buckets"
proof (cases "ids = []")
  case True
  then show ?thesis by (simp add: bucketSize_def split_ids_def split_loop.simps)
next
  case False
  then show ?thesis by (simp add: split_ids_nonempty)
qed

lemma concat_split_ids: "split_ids ids = Some buckets \<Longrightarrow> concat buckets = ids"
proof (cases "ids = []")
  case True
  moreover assume "split_ids ids = Some buckets"
  ultimately show ?thesis by (simp add: bucketSize_def split_ids_def split_loop.simps)
next
  case False
  define k where "k = (length ids + 99) div 100"
  define b where "b = (length ids + k - 1) div k"
  assume "split_ids ids = Some buckets"
  then have "buckets = map (\<lambda>j. take b (drop (j * b) ids)) [0..<k]"
    unfolding b_def k_def by (simp add: split_ids_nonempty [OF False])
  moreover have "length ids \<le> k * b"
    unfolding b_def k_def using False by (intro chunk_arith(4)) simp
  ultimately show ?thesis by (simp add: concat_chunks)
qed

text \<open>
  Claim C5. Let the reply to one of the bucket requests be anything but a response with
  status 200, and let that request complete; the other requests may complete before it,
  after it or never. Then \<^verbatim>\<open>fetchAudioFeatures\<close> fails with an error. And whatever the
  order in which requests complete, the call returns no list of features.
\<close>

theorem fetchAudioFeatures_all_or_nothing:
  assumes "split_ids ids = Some buckets"
      and "i < length buckets"
      and "i \<in> set order"
      and "\<forall>d. chunk_replies srv c tr buckets ! i \<noteq> Response 200 d"
  shows "(\<exists>e. fetchAudioFeatures srv order ids (c, tr) =
            Some (Inl e, (c, tr @ chunk_calls c buckets (chunk_replies srv c tr buckets)))) \<and>
         (\<forall>order' features s'.
            fetchAudioFeatures srv order' ids (c, tr) \<noteq> Some (Inr features, s'))"
proof -
  let ?rs = "map bucket_outcome (chunk_replies srv c tr buckets)"
  have len: "length ?rs = length buckets" by (simp add: length_chunk_replies)
  have i: "i < length ?rs" using assms(2) by (simp only: len)
  have rej: "isl (?rs ! i)"
    using assms(2,4) by (simp add: length_chunk_replies bucket_outcome_isl)
  have bad: "\<exists>r\<in>set ?rs. isl r" using i rej by (metis nth_mem)
  from promise_all_rejects [OF assms(3) i rej]
  obtain e where "promise_all order ?rs = Some (Inl e)" ..
  then have 1: "\<exists>e. fetchAudioFeatures srv order ids (c, tr) =
      Some (Inl e, (c, tr @ chunk_calls c buckets (chunk_replies srv c tr buckets)))"
    by (simp add: fetchAudioFeatures_def assms(1) start_all_buckets)
  have 2: "fetchAudioFeatures srv order' ids (c, tr) \<noteq> Some (Inr features, s')"
    for order' features s'
    using promise_all_never_fulfils [OF bad, of order']
    by (auto simp add: fetchAudioFeatures_def assms(1) start_all_buckets
        split: option.splits sum.splits)
  from 1 2 show ?thesis by blast
qed

text \<open>
  Claim C6. When every bucket request is answered with status 200 and every one of them
  completes, in whatever order, \<^verbatim>\<open>fetchAudioFeatures\<close> returns the concatenation of the
  \<^verbatim>\<open>audio_features\<close> arrays in bucket order. The buckets concatenate to the input ids, so
  if each reply lists the features of its bucket's ids in order, the result lists the
  features of the input ids in order.
\<close>

theorem fetchAudioFeatures_concat:
  assumes "split_ids ids = Some buckets"
      and "\<forall>i<length buckets. i \<in> set order"
      and "chunk_replies srv c tr buckets = map (Response 200) bodies"
  shows "fetchAudioFeatures srv order ids (c, tr) =
           Some (Inr (concat (map audio_features bodies)),
                 (c, tr @ chunk_calls c buckets (map (Response 200) bodies))) \<and>
         concat buckets = ids \<and>
         (\<forall>feat. bodies = map (\<lambda>b. \<lparr>audio_features = map feat b\<rparr>) buckets \<longrightarrow>
            concat (map audio_features bodies) = map feat ids)"
proof -
  let ?rs = "map bucket_outcome (chunk_replies srv c tr buckets)"
  have rs: "?rs = map (\<lambda>d. Inr (audio_features d)) bodies"
    by (simp add: assms(3) bucket_outcome_200)
  have len: "length ?rs = length buckets" by (simp add: length_chunk_replies)
  have ok: "\<forall>r\<in>set ?rs. \<not> isl r" by (auto simp add: rs)
  have "\<forall>i<length ?rs. i \<in> set order" using assms(2) by (simp only: len)
  from promise_all_fulfils [OF ok this]
  have "promise_all order ?rs = Some (Inr (map audio_features bodies))"
    by (simp add: rs comp_def)
  then have 1: "fetchAudioFeatures srv order ids (c, tr) =
           Some (Inr (concat (map audio_features bodies)),
                 (c, tr @ chunk_calls c buckets (map (Response 200) bodies)))"
    by (simp add: fetchAudioFeatures_def assms(1) start_all_buckets assms(3))
  have 2: "concat buckets = ids" by (rule concat_split_ids [OF assms(1)])
  have 3: "\<forall>feat. bodies = map (\<lambda>b. \<lparr>audio_features = map feat b\<rparr>) buckets \<longrightarrow>
            concat (map audio_features bodies) = map feat ids"
    by (auto simp add: comp_def map_concat 2 [symmetric])
  from 1 2 3 show ?thesis by blast
qed


text \<open>
  The two theorems at 101 ids, which make two buckets. For the first, the second request
  is refused and is the only one that ever completes; for the second, both are answered
  and the second completes first.
\<close>

lemma split_101: "split_ids (replicate 101 ''x'') = Some [replicate 51 ''x'', replicate 50 ''x'']"
  by code_simp

theorem fetchAudioFeatures_all_or_nothing_witness:
  "split_ids (replicate 101 ''x'') = Some [replicate 51 ''x'', replicate 50 ''x''] \<and>
   1 < length [replicate 51 ''x'', replicate 50 ''x''] \<and>
   1 \<in> set [1 :: nat] \<and>
   chunk_replies limited_remote stale_connection [] [replicate 51 ''x'', replicate 50 ''x''] ! 1 =
     Response 429 \<lparr>audio_features = []\<rparr> \<and>
   (\<exists>e. fetchAudioFeatures limited_remote [1] (replicate 101 ''x'') (stale_connection, []) =
      Some (Inl e, (stale_connection,
        [ApiCall (bucket_request stale_connection (replicate 51 ''x''))
           (Response 200 \<lparr>audio_features = [''f'']\<rparr>),
         ApiCall (bucket_request stale_connection (replicate 50 ''x''))
           (Response 429 \<lparr>audio_features = []\<rparr>)])))"
proof -
  have r: "chunk_replies limited_remote stale_connection [] [replicate 51 ''x'', replicate 50 ''x'']
      = [Response 200 \<lparr>audio_features = [''f'']\<rparr>, Response 429 \<lparr>audio_features = []\<rparr>]"
    by (simp add: limited_remote_def)
  have h2: "1 < length [replicate 51 ''x'', replicate 50 ''x'']" by simp
  have h3: "1 \<in> set [1 :: nat]" by simp
  have at1: "chunk_replies limited_remote stale_connection []
      [replicate 51 ''x'', replicate 50 ''x''] ! 1 = Response 429 \<lparr>audio_features = []\<rparr>"
    by (simp only: r) simp
  have h4: "\<forall>d. chunk_replies limited_remote stale_connection []
      [replicate 51 ''x'', replicate 50 ''x''] ! 1 \<noteq> Response 200 d"
    by (simp only: at1) simp
  from fetchAudioFeatures_all_or_nothing [OF split_101 h2 h3 h4]
  have "\<exists>e. fetchAudioFeatures limited_remote [1] (replicate 101 ''x'') (stale_connection, []) =
      Some (Inl e, (stale_connection, [] @ chunk_calls stale_connection
        [replicate 51 ''x'', replicate 50 ''x'']
        (chunk_replies limited_remote stale_connection [] [replicate 51 ''x'', replicate 50 ''x''])))"
    by blast
  then have "\<exists>e. fetchAudioFeatures limited_remote [1] (replicate 101 ''x'') (stale_connection, []) =
      Some (Inl e, (stale_connection,
        [ApiCall (bucket_request stale_connection (replicate 51 ''x''))
           (Response 200 \<lparr>audio_features = [''f'']\<rparr>),
         ApiCall (bucket_request stale_connection (replicate 50 ''x''))
           (Response 429 \<lparr>audio_features = []\<rparr>)]))"
    by (simp only: r chunk_calls_Cons chunk_calls_Nil append_Nil)
  with split_101 h2 h3 at1 show ?thesis by blast
qed

theorem fetchAudioFeatures_concat_witness:
  "split_ids (replicate 101 ''x'') = Some [replicate 51 ''x'', replicate 50 ''x''] \<and>
   {..<length [replicate 51 ''x'', replicate 50 ''x'']} \<subseteq> set [1, 0] \<and>
   chunk_replies features_remote stale_connection [] [replicate 51 ''x'', replicate 50 ''x''] =
     map (Response 200) [\<lparr>audio_features = [''f'']\<rparr>, \<lparr>audio_features = [''f'']\<rparr>] \<and>
   fetchAudioFeatures features_remote [1, 0] (replicate 101 ''x'') (stale_connection, []) =
     Some (Inr [''f'', ''f''], (stale_connection,
        [ApiCall (bucket_request stale_connection (replicate 51 ''x''))
           (Response 200 \<lparr>audio_features = [''f'']\<rparr>),
         ApiCall (bucket_request stale_connection (replicate 50 ''x''))
           (Response 200 \<lparr>audio_features = [''f'']\<rparr>)]))"
proof -
  have h2: "\<forall>i<length [replicate 51 ''x'', replicate 50 ''x'']. i \<in> set [1, 0::nat]"
    by (simp add: less_Suc_eq)
  have h3: "chunk_replies features_remote stale_connection [] [replicate 51 ''x'', replicate 50 ''x'']
     = map (Response 200) [\<lparr>audio_features = [''f'']\<rparr>, \<lparr>audio_features = [''f'']\<rparr>]"
    by (simp add: features_remote_def)
  from fetchAudioFeatures_concat [OF split_101 h2 h3]
  have "fetchAudioFeatures features_remote [1, 0] (replicate 101 ''x'') (stale_connection, []) =
     Some (Inr (concat (map audio_features [\<lparr>audio_features = [''f'']\<rparr>, \<lparr>audio_features = [''f'']\<rparr>])),
       (stale_connection, [] @ chunk_calls stale_connection [replicate 51 ''x'', replicate 50 ''x'']
          (map (Response 200) [\<lparr>audio_features = [''f'']\<rparr>, \<lparr>audio_features = [''f'']\<rparr>])))"
    by blast
  then have "fetchAudioFeatures features_remote [1, 0] (replicate 101 ''x'') (stale_connection, []) =
     Some (Inr [''f'', ''f''], (stale_connection,
        [ApiCall (bucket_request stale_connection (replicate 51 ''x''))
           (Response 200 \<lparr>audio_features = [''f'']\<rparr>),
         ApiCall (bucket_request stale_connection (replicate 50 ''x''))
           (Response 200 \<lparr>audio_features = [''f'']\<rparr>)]))"
    by (simp add: chunk_calls_Cons chunk_calls_Nil)
  moreover have "{..<length [replicate 51 ''x'', replicate 50 ''x'']} \<subseteq> set [1, 0::nat]"
    using h2 by blast
  ultimately show ?thesis using split_101 h3 by blast
qed


section \<open>The connection\<close>

lemma fetch_me:
  "fetch srv (Some ''/me'') (no_config\<lparr>http_method := Some ''get''\<rparr>) (c, tr) =
     (axios (api srv tr (me_request (accessToken c))),
      (c, tr @ [ApiCall (me_request (accessToken c)) (api srv tr (me_request (accessToken c)))]))"
  by (simp add: fetch_def no_config_def me_request_def apiRoot_def Let_def)

lemma tryRefresh_eq:
  "tryRefresh srv (c, tr) =
     (let reply = refresh srv tr (the_refresh_request (refreshToken c));
          tr' = tr @ [RefreshCall (the_refresh_request (refreshToken c)) reply]
      in case reply of
           NoResponse \<Rightarrow> (Inl (AxiosError None), (c, tr'))
         | Response st d \<Rightarrow>
             if st = 200 then (Inr (access_token d), (c\<lparr>accessToken := access_token d\<rparr>, tr'))
             else if 200 \<le> st \<and> st < 300 then (Inl (ThrownResponse st), (c, tr'))
             else (Inl (AxiosError (Some st)), (c, tr')))"
  by (auto simp add: tryRefresh_def the_refresh_request_def Let_def split: reply.splits)

lemma fetch_connection: "fst (snd (fetch srv endpoint cfg (c, tr))) = c"
  by (simp add: fetch_def Let_def)

lemma get_connection: "fst (snd (get srv endpoint cfg (c, tr))) = c"
  by (simp add: get_is_fetch fetch_connection)

lemma tryRefresh_refreshToken:
  "refreshToken (fst (snd (tryRefresh srv (c, tr)))) = refreshToken c"
  by (simp add: tryRefresh_eq Let_def split: reply.splits)

lemma fetchUserProfile_connection: "fst (snd (fetchUserProfile srv (c, tr))) = c"
proof -
  obtain r c' tr' where g: "get srv (Some ''/me'') no_config (c, tr) = (r, (c', tr'))"
    by (metis prod.collapse)
  with get_connection [of srv "Some ''/me''" no_config c tr] have "c' = c" by simp
  with g show ?thesis by (simp add: fetchUserProfile_def split: sum.splits)
qed

lemma playlists_fetcher_connection: "fst (snd (playlists_fetcher srv lim off (c, tr))) = c"
proof -
  let ?cfg = "no_config\<lparr>params := [(''limit'', Number lim), (''offset'', Number off)]\<rparr>"
  obtain r c' tr' where g: "get srv (Some ''/me/playlists'') ?cfg (c, tr) = (r, (c', tr'))"
    by (metis prod.collapse)
  with get_connection [of srv "Some ''/me/playlists''" ?cfg c tr] have "c' = c" by simp
  with g show ?thesis by (simp add: playlists_fetcher_def split: sum.splits)
qed

lemma tracks_fetcher_connection: "fst (snd (tracks_fetcher srv pl lim off (c, tr))) = c"
proof -
  let ?cfg = "no_config\<lparr>params := [(''limit'', Number lim), (''offset'', Number off)]\<rparr>"
  let ?e = "Some (''/playlists/'' @ pl @ ''/tracks'')"
  obtain r c' tr' where g: "get srv ?e ?cfg (c, tr) = (r, (c', tr'))"
    by (metis prod.collapse)
  with get_connection [of srv ?e ?cfg c tr] have "c' = c" by simp
  with g show ?thesis by (simp add: tracks_fetcher_def split: sum.splits)
qed

lemma establish_refreshToken: "refreshToken (fst (snd (establish srv a r tr))) = r"
proof -
  let ?c = "\<lparr>accessToken = a, refreshToken = r\<rparr>"
  obtain x c' tr' where g: "fetchUserProfile srv (?c, tr) = (x, (c', tr'))"
    by (metis prod.collapse)
  with fetchUserProfile_connection [of srv ?c tr] have "c' = ?c" by simp
  with g show ?thesis by (simp add: establish_def split: sum.splits)
qed

lemma reestablish_refreshToken: "refreshToken (fst (snd (reestablish srv r tr))) = r"
proof -
  let ?c = "\<lparr>accessToken = [], refreshToken = r\<rparr>"
  obtain x c' tr' where t: "tryRefresh srv (?c, tr) = (x, (c', tr'))"
    by (metis prod.collapse)
  with tryRefresh_refreshToken [of srv ?c tr] have c': "refreshToken c' = r" by simp
  obtain y c'' tr'' where g: "fetchUserProfile srv (c', tr') = (y, (c'', tr''))"
    by (metis prod.collapse)
  with fetchUserProfile_connection [of srv c' tr'] have "c'' = c'" by simp
  with t g c' show ?thesis by (simp add: reestablish_def split: sum.splits)
qed

lemma fetchAudioFeatures_connection:
  "fetchAudioFeatures srv order ids (c, tr) = Some (r, (c', tr')) \<Longrightarrow> c' = c"
  by (auto simp add: fetchAudioFeatures_def start_all_buckets split: option.splits sum.splits)

text \<open>
  Claim C8. \<^verbatim>\<open>tryRefresh\<close> makes one request, to the refresh endpoint with the
  connection's refresh token as the \<^verbatim>\<open>refresh_token\<close> query parameter. If the reply is
  anything but a response with status 200 it fails and leaves the connection as it was.
  On status 200 it stores the \<^verbatim>\<open>access_token\<close> of the reply and returns it. No operation
  changes the refresh token: \<^verbatim>\<open>tryRefresh\<close> keeps it, \<^verbatim>\<open>fetch\<close>, \<^verbatim>\<open>get\<close>,
  \<^verbatim>\<open>fetchUserProfile\<close>, the page fetchers and \<^verbatim>\<open>fetchAudioFeatures\<close> leave the whole
  connection unchanged, and \<^verbatim>\<open>establish\<close> and \<^verbatim>\<open>reestablish\<close> end with the refresh token
  they were given.
\<close>

theorem tryRefresh_contract:
  "snd (snd (tryRefresh srv (c, tr))) =
     tr @ [RefreshCall (the_refresh_request (refreshToken c))
             (refresh srv tr (the_refresh_request (refreshToken c)))] \<and>
   ((\<forall>d. refresh srv tr (the_refresh_request (refreshToken c)) \<noteq> Response 200 d) \<longrightarrow>
      isl (fst (tryRefresh srv (c, tr))) \<and> fst (snd (tryRefresh srv (c, tr))) = c) \<and>
   (\<forall>d. refresh srv tr (the_refresh_request (refreshToken c)) = Response 200 d \<longrightarrow>
      fst (tryRefresh srv (c, tr)) = Inr (access_token d) \<and>
      fst (snd (tryRefresh srv (c, tr))) = c\<lparr>accessToken := access_token d\<rparr>) \<and>
   refreshToken (fst (snd (tryRefresh srv (c, tr)))) = refreshToken c \<and>
   fst (snd (fetch srv endpoint cfg (c, tr))) = c \<and>
   fst (snd (get srv endpoint cfg (c, tr))) = c \<and>
   fst (snd (fetchUserProfile srv (c, tr))) = c \<and>
   fst (snd (playlists_fetcher srv lim off (c, tr))) = c \<and>
   fst (snd (tracks_fetcher srv playlist lim off (c, tr))) = c \<and>
   (\<forall>r c' tr'. fetchAudioFeatures fsrv order ids (c, ftr) = Some (r, (c', tr')) \<longrightarrow> c' = c) \<and>
   refreshToken (fst (snd (establish srv a rt tr))) = rt \<and>
   refreshToken (fst (snd (reestablish srv rt tr))) = rt"
proof -
  let ?rq = "the_refresh_request (refreshToken c)"
  have 1: "snd (snd (tryRefresh srv (c, tr))) = tr @ [RefreshCall ?rq (refresh srv tr ?rq)]"
    by (simp add: tryRefresh_eq Let_def split: reply.splits)
  have 2: "(\<forall>d. refresh srv tr ?rq \<noteq> Response 200 d) \<longrightarrow>
      isl (fst (tryRefresh srv (c, tr))) \<and> fst (snd (tryRefresh srv (c, tr))) = c"
    by (simp add: tryRefresh_eq Let_def split: reply.splits)
  have 3: "\<forall>d. refresh srv tr ?rq = Response 200 d \<longrightarrow>
      fst (tryRefresh srv (c, tr)) = Inr (access_token d) \<and>
      fst (snd (tryRefresh srv (c, tr))) = c\<lparr>accessToken := access_token d\<rparr>"
    by (simp add: tryRefresh_eq Let_def)
  have 4: "\<forall>r c' tr'. fetchAudioFeatures fsrv order ids (c, ftr) = Some (r, (c', tr')) \<longrightarrow> c' = c"
    by (blast dest: fetchAudioFeatures_connection)
  show ?thesis
    by (intro conjI 1 2 3 4 tryRefresh_refreshToken fetch_connection get_connection
        fetchUserProfile_connection playlists_fetcher_connection tracks_fetcher_connection
        establish_refreshToken reestablish_refreshToken)
qed

text \<open>
  The contract at a refresh token the endpoint refuses and at one it accepts.
\<close>

theorem tryRefresh_contract_witness:
  "(\<forall>d. refresh stale_remote [] (the_refresh_request ''bogus'') \<noteq> Response 200 d) \<and>
   tryRefresh stale_remote (\<lparr>accessToken = ''stale'', refreshToken = ''bogus''\<rparr>, []) =
     (Inl (AxiosError (Some 400)), (\<lparr>accessToken = ''stale'', refreshToken = ''bogus''\<rparr>,
       [RefreshCall (the_refresh_request ''bogus'') (Response 400 \<lparr>access_token = []\<rparr>)])) \<and>
   isl (fst (tryRefresh stale_remote (\<lparr>accessToken = ''stale'', refreshToken = ''bogus''\<rparr>, []))) \<and>
   refresh stale_remote [] (the_refresh_request ''valid'') = Response 200 \<lparr>access_token = ''fresh''\<rparr> \<and>
   fst (tryRefresh stale_remote (\<lparr>accessToken = ''stale'', refreshToken = ''valid''\<rparr>, [])) = Inr ''fresh'' \<and>
   fst (snd (tryRefresh stale_remote (\<lparr>accessToken = ''stale'', refreshToken = ''valid''\<rparr>, []))) =
     \<lparr>accessToken = ''fresh'', refreshToken = ''valid''\<rparr> \<and>
   snd (snd (tryRefresh stale_remote (\<lparr>accessToken = ''stale'', refreshToken = ''valid''\<rparr>, []))) =
     [RefreshCall (the_refresh_request ''valid'') (Response 200 \<lparr>access_token = ''fresh''\<rparr>)] \<and>
   fetchAudioFeatures features_remote [] [] (stale_connection, []) = Some (Inr [], (stale_connection, []))"
proof -
  have bogus: "\<forall>d. refresh stale_remote [] (the_refresh_request ''bogus'') \<noteq> Response 200 d"
    by (simp add: stale_remote_def the_refresh_request_def)
  have valid: "refresh stale_remote [] (the_refresh_request ''valid'') =
      Response 200 \<lparr>access_token = ''fresh''\<rparr>"
    by (simp add: stale_remote_def the_refresh_request_def)
  have ev: "tryRefresh stale_remote (\<lparr>accessToken = ''stale'', refreshToken = ''bogus''\<rparr>, []) =
     (Inl (AxiosError (Some 400)), (\<lparr>accessToken = ''stale'', refreshToken = ''bogus''\<rparr>,
       [RefreshCall (the_refresh_request ''bogus'') (Response 400 \<lparr>access_token = []\<rparr>)]))"
    by (simp add: tryRefresh_eq stale_remote_def the_refresh_request_def)
  have af: "fetchAudioFeatures features_remote [] [] (stale_connection, []) =
      Some (Inr [], (stale_connection, []))"
    by (simp add: bucketSize_def split_ids_def split_loop.simps fetchAudioFeatures_def
      promise_all_def)
  note a = tryRefresh_contract [of stale_remote "\<lparr>accessToken = ''stale'', refreshToken = ''bogus''\<rparr>" "[]"]
  note b = tryRefresh_contract [of stale_remote "\<lparr>accessToken = ''stale'', refreshToken = ''valid''\<rparr>" "[]"]
  from a [THEN conjunct2, THEN conjunct1] bogus have "isl (fst (tryRefresh stale_remote
      (\<lparr>accessToken = ''stale'', refreshToken = ''bogus''\<rparr>, [])))"
    by simp
  moreover from b [THEN conjunct2, THEN conjunct2, THEN conjunct1] valid have
    "fst (tryRefresh stale_remote (\<lparr>accessToken = ''stale'', refreshToken = ''valid''\<rparr>, [])) = Inr ''fresh''"
    "fst (snd (tryRefresh stale_remote (\<lparr>accessToken = ''stale'', refreshToken = ''valid''\<rparr>, []))) =
       \<lparr>accessToken = ''fresh'', refreshToken = ''valid''\<rparr>"
    by simp_all
  moreover from b [THEN conjunct1] valid have
    "snd (snd (tryRefresh stale_remote (\<lparr>accessToken = ''stale'', refreshToken = ''valid''\<rparr>, []))) =
     [RefreshCall (the_refresh_request ''valid'') (Response 200 \<lparr>access_token = ''fresh''\<rparr>)]"
    by simp
  ultimately show ?thesis using bogus valid ev af by blast
qed

section \<open>A stale access token\<close>


text \<open>
  Claim C1 fails on the code. The access token is stale and the refresh token is valid:
  the first request is answered with 401. \<^verbatim>\<open>get\<close> then fails with the error of axios;
  it has made that one request, no refresh request and no second request, the stored
  token is still the stale one and \<^verbatim>\<open>onAccessTokenChange\<close> was not called.
\<close>

theorem get_stale_token:
  "get stale_remote (Some ''/me'') no_config (stale_connection, []) =
     (Inl (AxiosError (Some 401)),
      (stale_connection, [ApiCall (me_request ''stale'') (Response 401 no_profile)]))"
  by (simp add: get_is_fetch fetch_me stale_remote_def stale_connection_def me_request_def)

text \<open>
  With \<^verbatim>\<open>return await\<close> in the \<^verbatim>\<open>try\<close> block the same handler does what the claim says:
  one refresh, the callback with the new token, one retry, success.
\<close>

lemma get_awaited_stale_token:
  "try_return_await (fetch stale_remote (Some ''/me'') (no_config\<lparr>http_method := Some ''get''\<rparr>))
       (get_handler stale_remote (Some ''/me'') no_config) (stale_connection, []) =
     (Inr \<lparr>data = some_profile, status = 200\<rparr>,
      (stale_connection\<lparr>accessToken := ''fresh''\<rparr>,
       [ApiCall (me_request ''stale'') (Response 401 no_profile),
        RefreshCall (the_refresh_request ''valid'') (Response 200 \<lparr>access_token = ''fresh''\<rparr>),
        OnAccessTokenChange ''fresh'',
        ApiCall (me_request ''fresh'') (Response 200 some_profile)]))"
  by (simp add: try_return_await_def get_handler_def fetch_me tryRefresh_eq stale_remote_def
      stale_connection_def me_request_def the_refresh_request_def)

text \<open>
  So does \<^verbatim>\<open>verify\<close> of the earlier form of the class, which awaits inside its
  \<^verbatim>\<open>try\<close> block.
\<close>

lemma verify_stale_token:
  "verify stale_remote (stale_connection, []) =
     (Inr some_profile,
      (stale_connection\<lparr>accessToken := ''fresh''\<rparr>,
       [ApiCall (me_request ''stale'') (Response 401 no_profile),
        RefreshCall (the_refresh_request ''valid'') (Response 200 \<lparr>access_token = ''fresh''\<rparr>),
        OnAccessTokenChange ''fresh'',
        ApiCall (me_request ''fresh'') (Response 200 some_profile)]))"
  by (simp add: verify_def try_return_await_def fetchUserProfile_v0_def get_v0_def fetch_v0_def
      throw_def no_config_def apiRoot_def stale_remote_def stale_connection_def me_request_def
      the_refresh_request_def Let_def)

text \<open>
  Claim C3 fails on the code. \<^verbatim>\<open>establish\<close> with a stale access token and a valid
  refresh token fails with the 401 error of the verification fetch: there is no refresh,
  and \<^verbatim>\<open>onGettingUserProfile\<close> is not called.
\<close>

theorem establish_stale_token:
  "establish stale_remote ''stale'' ''valid'' [] =
     (Inl (AxiosError (Some 401)),
      (stale_connection, [ApiCall (me_request ''stale'') (Response 401 no_profile)]))"
  by (simp add: establish_def fetchUserProfile_def get_is_fetch fetch_me stale_remote_def
      stale_connection_def me_request_def)

text \<open>
  When the verification fetch is answered with 200, \<^verbatim>\<open>establish\<close> succeeds and calls
  \<^verbatim>\<open>onGettingUserProfile\<close> with the profile.
\<close>

lemma establish_fresh_token:
  "establish stale_remote ''fresh'' ''valid'' [] =
     (Inr \<lparr>accessToken = ''fresh'', refreshToken = ''valid''\<rparr>,
      (\<lparr>accessToken = ''fresh'', refreshToken = ''valid''\<rparr>,
       [ApiCall (me_request ''fresh'') (Response 200 some_profile),
        OnGettingUserProfile some_profile]))"
  by (simp add: establish_def fetchUserProfile_def get_is_fetch fetch_me stale_remote_def
      me_request_def Let_def)




text \<open>
  Claim C4 fails on the code. \<^verbatim>\<open>reestablish\<close> with a valid refresh token replaces the
  stored access token (the empty string) by the new one and succeeds, and a direct
  \<^verbatim>\<open>tryRefresh\<close> replaces the stale token; in neither trace is there a call of
  \<^verbatim>\<open>onAccessTokenChange\<close>.
\<close>

theorem refresh_without_callback:
  "reestablish stale_remote ''valid'' [] =
     (Inr \<lparr>accessToken = ''fresh'', refreshToken = ''valid''\<rparr>,
      (\<lparr>accessToken = ''fresh'', refreshToken = ''valid''\<rparr>,
       [RefreshCall (the_refresh_request ''valid'') (Response 200 \<lparr>access_token = ''fresh''\<rparr>),
        ApiCall (me_request ''fresh'') (Response 200 some_profile),
        OnGettingUserProfile some_profile])) \<and>
   tryRefresh stale_remote (stale_connection, []) =
     (Inr ''fresh'',
      (\<lparr>accessToken = ''fresh'', refreshToken = ''valid''\<rparr>,
       [RefreshCall (the_refresh_request ''valid'') (Response 200 \<lparr>access_token = ''fresh''\<rparr>)]))"
  by (simp add: reestablish_def fetchUserProfile_def get_is_fetch fetch_me tryRefresh_eq
      stale_remote_def stale_connection_def me_request_def the_refresh_request_def)

section \<open>The accumulation invariant of Paged\<close>

lemma fetchNext_keeps:
  assumes "length (fetchedItems p) = nextOffset p \<and>
           (\<forall>t. known_total p = Some t \<longrightarrow> nextOffset p \<le> t)"
  shows "length (fetchedItems (snd (fetchNext f p))) = nextOffset (snd (fetchNext f p)) \<and>
         (\<forall>t. known_total (snd (fetchNext f p)) = Some t \<longrightarrow> nextOffset (snd (fetchNext f p)) \<le> t)"
proof (cases "known_total p = Some (nextOffset p)")
  case True
  with assms show ?thesis by (simp add: fetchNext_def)
next
  case False
  show ?thesis
  proof (cases "f (pageSize p) (nextOffset p)")
    case (Inl e)
    with False assms show ?thesis by (simp add: fetchNext_def)
  next
    case (Inr pg)
    show ?thesis
    proof (cases "page_total pg < nextOffset p + length (items pg)")
      case True
      with False Inr assms show ?thesis by (simp add: fetchNext_def)
    next
      case valid: False
      with False Inr assms show ?thesis by (simp add: fetchNext_def)
    qed
  qed
qed

lemma fetchNexts_keeps:
  assumes "length (fetchedItems p) = nextOffset p \<and>
           (\<forall>t. known_total p = Some t \<longrightarrow> nextOffset p \<le> t)"
  shows "length (fetchedItems (fetchNexts fs p)) = nextOffset (fetchNexts fs p) \<and>
         (\<forall>t. known_total (fetchNexts fs p) = Some t \<longrightarrow> nextOffset (fetchNexts fs p) \<le> t)"
  using assms
proof (induction fs arbitrary: p)
  case Nil
  then show ?case by simp
next
  case (Cons f fs)
  from Cons.IH [OF fetchNext_keeps [OF Cons.prems]] show ?case by simp
qed

lemma fetchNext_failure: "fst (fetchNext f p) = Inl e \<Longrightarrow> snd (fetchNext f p) = p"
  by (auto simp add: fetchNext_def split: if_splits sum.splits)

text \<open>
  Claim C9, on the model of \<^verbatim>\<open>Paged\<close> taken from the specification. Start from a fresh
  container and make any sequence of \<^verbatim>\<open>fetchNext\<close> calls, whatever the fetcher returns
  at each. After each call the number of fetched items equals \<open>nextOffset\<close>, and
  \<open>nextOffset\<close> is at most the total once a total is known. A \<^verbatim>\<open>fetchNext\<close> that fails,
  from any state and with any fetcher, leaves the container unchanged.
\<close>

theorem fetchNext_accumulates:
  "(\<forall>k. length (fetchedItems (fetchNexts (take k fs) (create n))) =
               nextOffset (fetchNexts (take k fs) (create n)) \<and>
             (\<forall>t. known_total (fetchNexts (take k fs) (create n)) = Some t \<longrightarrow>
                  nextOffset (fetchNexts (take k fs) (create n)) \<le> t)) \<and>
         (\<forall>f p e. fst (fetchNext f p) = Inl e \<longrightarrow> snd (fetchNext f p) = p)"
proof -
  have start: "length (fetchedItems (create n)) = nextOffset (create n) \<and>
        (\<forall>t. known_total (create n) = Some t \<longrightarrow> nextOffset (create n) \<le> t)"
    by (simp add: create_def)
  have 1: "length (fetchedItems (fetchNexts (take k fs) (create n))) =
               nextOffset (fetchNexts (take k fs) (create n)) \<and>
             (\<forall>t. known_total (fetchNexts (take k fs) (create n)) = Some t \<longrightarrow>
                  nextOffset (fetchNexts (take k fs) (create n)) \<le> t)" for k
    by (rule fetchNexts_keeps [OF start])
  have 2: "\<forall>f p e. fst (fetchNext f p) = Inl e \<longrightarrow> snd (fetchNext f p) = p"
    by (blast intro: fetchNext_failure)
  from 1 2 show ?thesis by blast
qed

text \<open>
  Pages of 50 over 120 items, with a failed call and a page of an invalid total in
  between: three pages are appended, the two other calls change nothing.
\<close>

theorem fetchNext_accumulates_witness:
  "nextOffset (fetchNexts
      [collection_fetcher, failing_fetcher, collection_fetcher, overfull_fetcher, collection_fetcher]
      (create 50)) = 120 \<and>
   known_total (fetchNexts
      [collection_fetcher, failing_fetcher, collection_fetcher, overfull_fetcher, collection_fetcher]
      (create 50)) = Some 120 \<and>
   length (fetchedItems (fetchNexts
      [collection_fetcher, failing_fetcher, collection_fetcher, overfull_fetcher, collection_fetcher]
      (create 50))) = 120 \<and>
   fst (fetchNext failing_fetcher (create 50 :: nat paged)) = Inl (Underlying ()) \<and>
   snd (fetchNext failing_fetcher (create 50 :: nat paged)) = create 50 \<and>
   fst (fetchNext overfull_fetcher (create 50 :: nat paged)) = Inl InvalidTotal \<and>
   snd (fetchNext overfull_fetcher (create 50 :: nat paged)) = create 50"
proof -
  let ?fs = "[collection_fetcher, failing_fetcher, collection_fetcher, overfull_fetcher,
    collection_fetcher]"
  have off: "nextOffset (fetchNexts ?fs (create 50)) = 120" by code_simp
  have tot: "known_total (fetchNexts ?fs (create 50)) = Some 120" by code_simp
  have fl: "fst (fetchNext failing_fetcher (create 50 :: nat paged)) = Inl (Underlying ())"
    by (simp add: fetchNext_def failing_fetcher_def create_def)
  have ov: "fst (fetchNext overfull_fetcher (create 50 :: nat paged)) = Inl InvalidTotal"
    by (simp add: fetchNext_def overfull_fetcher_def create_def)
  from fetchNext_accumulates [of ?fs 50]
  have all: "\<forall>k. length (fetchedItems (fetchNexts (take k ?fs) (create 50))) =
               nextOffset (fetchNexts (take k ?fs) (create 50))"
    and unchanged: "\<forall>f p e. fst (fetchNext (f :: nat \<Rightarrow> nat \<Rightarrow> unit + nat page) p) = Inl e \<longrightarrow>
        snd (fetchNext f p) = p"
    by blast+
  from all have "length (fetchedItems (fetchNexts (take 5 ?fs) (create 50))) =
               nextOffset (fetchNexts (take 5 ?fs) (create 50))" by blast
  then have len: "length (fetchedItems (fetchNexts ?fs (create 50))) = 120"
    using off by simp
  from unchanged fl have u1: "snd (fetchNext failing_fetcher (create 50 :: nat paged)) = create 50"
    by blast
  from unchanged ov have u2: "snd (fetchNext overfull_fetcher (create 50 :: nat paged)) = create 50"
    by blast
  from off tot len fl u1 ov u2 show ?thesis by blast
qed

end
